theory Spec2Isabelle
  imports Complex_Main
begin

section \<open>Errors and promises\<close>

text \<open>
  Exceptions of the TypeScript sources are values: a function that can throw returns
  \<open>error + 'a\<close>, with \<open>Inl\<close> the exception.  An \<open>async\<close> method returns a promise;
  only its settled state matters here.  A loop that may run forever is a partial function
  into \<open>option\<close>: \<open>None\<close> is "does not return".
\<close>

datatype error = TypeError | RangeError | IOError

datatype 'a promise = Fulfilled 'a | Rejected error

section \<open>File utilities (src/utils/obsidian.ts)\<close>

subsection \<open>isEqualToOrChildOf\<close>

text \<open>
  Files and folders are objects compared by reference; \<open>'f\<close> is the type of these
  references.  \<open>parent\<close> is the field \<open>TAbstractFile.parent\<close> (a folder or \<open>null\<close>),
  \<open>is_TFolder\<close> is \<open>instanceof TFolder\<close>, and \<open>isRoot\<close> is the method of \<open>TFolder\<close>.
\<close>

record 'f file_tree =
  parent :: "'f \<Rightarrow> 'f option"
  is_TFolder :: "'f \<Rightarrow> bool"
  isRoot :: "'f \<Rightarrow> bool"

text \<open>
  The \<open>while (true)\<close> loop of lines 47 to 57, with the loop variable \<open>ancestor\<close> as
  argument.  When \<open>ancestor\<close> is \<open>null\<close> the body changes nothing and the loop goes
  round again.
\<close>

partial_function (option) ancestor_loop :: "'f file_tree \<Rightarrow> 'f \<Rightarrow> 'f option \<Rightarrow> bool option" where
  "ancestor_loop T file2 ancestor =
     (if ancestor = Some file2 then Some True
      else (case ancestor of
              Some a \<Rightarrow> if isRoot T a then Some False else ancestor_loop T file2 (parent T a)
            | None \<Rightarrow> ancestor_loop T file2 None))"

definition isEqualToOrChildOf :: "'f file_tree \<Rightarrow> 'f \<Rightarrow> 'f \<Rightarrow> bool option" where
  "isEqualToOrChildOf T file1 file2 =
     (if file1 = file2 then Some True
      else if is_TFolder T file2 \<and> isRoot T file2 then Some True
      else ancestor_loop T file2 (parent T file1))"

subsection \<open>generateBlockID\<close>

text \<open>Of \<open>CachedMetadata\<close> only the optional field \<open>blocks\<close> is read.\<close>

record 'b cached_metadata =
  blocks :: "(string \<rightharpoonup> 'b) option"

text \<open>
  \<open>Number.prototype.toString(16)\<close> on an integer: lowercase digits, most significant
  first, and a minus sign for a negative number.
\<close>

definition hex_digit :: "nat \<Rightarrow> char" where
  "hex_digit d = ''0123456789abcdef'' ! (d mod 16)"

function toString16_nat :: "nat \<Rightarrow> string" where
  "toString16_nat n =
     (if n < 16 then [hex_digit n] else toString16_nat (n div 16) @ [hex_digit (n mod 16)])"
  by pat_completeness auto
termination
  by (relation "measure id") auto

definition toString16 :: "int \<Rightarrow> string" where
  "toString16 i = (if i < 0 then CHR ''-'' # toString16_nat (nat (- i)) else toString16_nat (nat i))"

text \<open>\<open>cache?.blocks && id in cache.blocks\<close>\<close>

definition in_blocks :: "'b cached_metadata option \<Rightarrow> string \<Rightarrow> bool" where
  "in_blocks cache blockId =
     (case cache of
        None \<Rightarrow> False
      | Some c \<Rightarrow> (case blocks c of None \<Rightarrow> False | Some bs \<Rightarrow> blockId \<in> dom bs))"

text \<open>
  \<open>Math.random\<close> is a source of numbers: \<open>random i\<close> is what its call number \<open>i\<close>
  returns, a number in [0, 1).  Multiplying a double by 16 and taking the floor are exact,
  so the numbers are reals.  One pass of the loop body makes \<open>len\<close> calls, the first
  of them call number \<open>n\<close>, and joins the digits:
  \<open>[...Array(length)].map(() => Math.floor(Math.random() * 16).toString(16)).join('')\<close>.
\<close>

definition random_id :: "(nat \<Rightarrow> real) \<Rightarrow> nat \<Rightarrow> nat \<Rightarrow> string" where
  "random_id random n len = concat (map (\<lambda>i. toString16 \<lfloor>random (n + i) * 16\<rfloor>) [0..<len])"

partial_function (option) generateBlockID_loop ::
    "(nat \<Rightarrow> real) \<Rightarrow> 'b cached_metadata option \<Rightarrow> nat \<Rightarrow> nat \<Rightarrow> string option" where
  "generateBlockID_loop random cache len n =
     (let blockId = random_id random n len
      in if in_blocks cache blockId then generateBlockID_loop random cache len (n + len)
         else Some blockId)"

text \<open>
  The parameter \<open>length\<close> defaults to 6 when the argument is omitted.  \<open>Array(length)\<close>
  throws a \<open>RangeError\<close> unless the length is an integer from 0 to \<open>2^32 - 1\<close>.
\<close>

definition generateBlockID ::
    "(nat \<Rightarrow> real) \<Rightarrow> 'b cached_metadata option \<Rightarrow> int option \<Rightarrow> (error + string) option" where
  "generateBlockID random cache length_arg =
     (let length = (case length_arg of None \<Rightarrow> 6 | Some l \<Rightarrow> l)
      in if length < 0 \<or> length \<ge> 2 ^ 32 then Some (Inl RangeError)
         else map_option Inr (generateBlockID_loop random cache (nat length) 0))"

section \<open>File IO (src/utils/obsidian.ts, second part)\<close>

subsection \<open>Strings and positions\<close>

text \<open>
  \<open>String.prototype.slice(b, e)\<close>: a negative index counts from the end, every
  index is clamped to the string, and an empty span gives the empty string.  A string is
  the list of its code units.
\<close>

definition js_slice :: "'a list \<Rightarrow> int \<Rightarrow> int \<Rightarrow> 'a list" where
  "js_slice s b e =
     (let len = int (length s);
          from = (if b < 0 then max (len + b) 0 else min b len);
          to = (if e < 0 then max (len + e) 0 else min e len)
      in take (nat (to - from)) (drop (nat from) s))"

text \<open>Obsidian's \<open>Loc\<close> and \<open>Pos\<close>.\<close>

record loc =
  line :: int
  col :: int
  offset :: int

record pos =
  pos_start :: loc
  pos_end :: loc

subsection \<open>The document store\<close>

text \<open>
  The vault is the host's document store: a file has a content or does not exist.
  \<open>Vault.cachedRead\<close> and \<open>Vault.process\<close> return promises; \<open>process\<close> reads the
  content, applies the callback and writes the result back, and its promise is rejected
  when the store cannot do so (here: the file is not there).
\<close>

type_synonym vault = "string \<rightharpoonup> string"

definition cachedRead :: "vault \<Rightarrow> string \<Rightarrow> string promise" where
  "cachedRead v file = (case v file of None \<Rightarrow> Rejected IOError | Some data \<Rightarrow> Fulfilled data)"

definition process :: "vault \<Rightarrow> string \<Rightarrow> (string \<Rightarrow> string) \<Rightarrow> string promise \<times> vault" where
  "process v file fn =
     (case v file of
        None \<Rightarrow> (Rejected IOError, v)
      | Some data \<Rightarrow> (Fulfilled (fn data), v(file \<mapsto> fn data)))"

subsection \<open>NonActiveNoteIO\<close>

text \<open>The callback that \<open>NonActiveNoteIO.setRange\<close> hands to \<open>Vault.process\<close>.\<close>

definition setRange_fn :: "pos \<Rightarrow> string \<Rightarrow> string \<Rightarrow> string" where
  "setRange_fn position text data =
     js_slice data 0 (offset (pos_start position)) @ text
       @ js_slice data (offset (pos_end position) + 1) (int (length data))"

text \<open>
  \<open>async setRange(position, text)\<close> calls \<open>vault.process\<close> and neither awaits nor
  returns its promise: the method's own promise is fulfilled whatever \<open>process\<close> does.
  The result is the method's promise and the store after the started write has settled.
\<close>

definition NonActiveNoteIO_setRange :: "vault \<Rightarrow> string \<Rightarrow> pos \<Rightarrow> string \<Rightarrow> unit promise \<times> vault" where
  "NonActiveNoteIO_setRange v file position text =
     (let (p, v') = process v file (setRange_fn position text) in (Fulfilled (), v'))"

text \<open>
  \<open>setLine\<close> and \<open>insertLine\<close> have the same shape; their callbacks use
  \<open>splitIntoLines\<close> and \<open>insertAt\<close> of utils/general, which are taken as the
  parameter \<open>fn\<close>.
\<close>

definition NonActiveNoteIO_write :: "vault \<Rightarrow> string \<Rightarrow> (string \<Rightarrow> string) \<Rightarrow> unit promise \<times> vault" where
  "NonActiveNoteIO_write v file fn = (let (p, v') = process v file fn in (Fulfilled (), v'))"

text \<open>\<open>async getRange(position)\<close> awaits \<open>cachedRead\<close>, so a rejection is passed on.\<close>

definition getRange_fn :: "pos \<Rightarrow> string \<Rightarrow> string" where
  "getRange_fn position content =
     js_slice content (offset (pos_start position)) (offset (pos_end position))"

definition NonActiveNoteIO_getRange :: "vault \<Rightarrow> string \<Rightarrow> pos \<Rightarrow> string promise" where
  "NonActiveNoteIO_getRange v file position =
     (case cachedRead v file of
        Rejected e \<Rightarrow> Rejected e
      | Fulfilled content \<Rightarrow> Fulfilled (getRange_fn position content))"

definition mk_pos :: "int \<Rightarrow> int \<Rightarrow> pos" where
  "mk_pos s e = \<lparr>pos_start = \<lparr>line = 0, col = s, offset = s\<rparr>,
                 pos_end = \<lparr>line = 0, col = e, offset = e\<rparr>\<rparr>"

section \<open>Settings (src/main.ts)\<close>

subsection \<open>Values\<close>

text \<open>
  The values that persisted data holds are JSON values.  \<open>'n\<close> is the type of numbers,
  compared as \<open>includes\<close> compares them.
\<close>

datatype 'n json =
    JNull
  | JBool bool
  | JNum 'n
  | JStr string
  | JArr "'n json list"
  | JObj "(string \<times> 'n json) list"

datatype jstype = TObject | TBoolean | TNumber | TString

fun typeof :: "'n json \<Rightarrow> jstype" where
  "typeof JNull = TObject"
| "typeof (JBool b) = TBoolean"
| "typeof (JNum n) = TNumber"
| "typeof (JStr s) = TString"
| "typeof (JArr xs) = TObject"
| "typeof (JObj kvs) = TObject"

fun is_primitive :: "'n json \<Rightarrow> bool" where
  "is_primitive (JArr xs) = False"
| "is_primitive (JObj kvs) = False"
| "is_primitive v = True"

text \<open>
  \<open>Array.prototype.includes\<close>: primitives are compared by value; an array or object
  parsed from the data file is a fresh reference and is never found in a constant table.
\<close>

definition js_includes :: "'n json list \<Rightarrow> 'n json \<Rightarrow> bool" where
  "js_includes allowableValues val = (is_primitive val \<and> val \<in> set allowableValues)"

subsection \<open>The plugin's state and the persisted data\<close>

definition VAULT_ROOT :: string where
  "VAULT_ROOT = ''/''"

text \<open>
  \<open>this.settings\<close> is a plain object keyed by path; the table is the map of its own
  properties, and its prototype is \<open>Object.prototype\<close>.  A property holds a settings
  object (a partial map from setting keys to values) or, after a rename, what the read of
  the old path gave: the value \<open>undefined\<close>, a function that \<open>Object.prototype\<close> has
  under the name (\<open>Builtin ''constructor''\<close> is the function \<open>Object\<close>), or
  \<open>Object.prototype\<close> itself.
\<close>

datatype 'n slot = Undefined | Obj "string \<rightharpoonup> 'n json" | Builtin string | ObjectPrototype

type_synonym 'n settings_table = "string \<rightharpoonup> 'n slot"

record 'n plugin =
  settings :: "'n settings_table"
  extraSettings :: "string \<rightharpoonup> 'n json"
  excludedFiles :: "string list"

text \<open>The names of the properties of \<open>Object.prototype\<close>.\<close>

definition Object_prototype_names :: "string list" where
  "Object_prototype_names =
     [''constructor'', ''__defineGetter__'', ''__defineSetter__'', ''hasOwnProperty'',
      ''__lookupGetter__'', ''__lookupSetter__'', ''isPrototypeOf'', ''propertyIsEnumerable'',
      ''toString'', ''valueOf'', ''__proto__'', ''toLocaleString'']"

text \<open>
  Reading \<open>this.settings[path]\<close>: an own property gives its value; otherwise the read
  goes to \<open>Object.prototype\<close>, where \<open>__proto__\<close> is a getter that gives the prototype
  of the object, the other names give functions, and any other path reads as
  \<open>undefined\<close>.
\<close>

definition settings_at :: "'n settings_table \<Rightarrow> string \<Rightarrow> 'n slot" where
  "settings_at tbl path =
     (case tbl path of
        Some s \<Rightarrow> s
      | None \<Rightarrow>
          if path = ''__proto__'' then ObjectPrototype
          else if path \<in> set Object_prototype_names then Builtin path
          else Undefined)"

text \<open>
  The assignment \<open>this.settings[path] = v\<close>: it makes or changes an own property, but
  for the path \<open>__proto__\<close> without an own property it calls the setter of
  \<open>Object.prototype\<close>, which makes no property: the setter gives the object the
  prototype \<open>v\<close> when \<open>v\<close> is an object, and does nothing otherwise.
\<close>

definition assign_setting :: "'n settings_table \<Rightarrow> string \<Rightarrow> 'n slot \<Rightarrow> 'n settings_table" where
  "assign_setting tbl path v = (if path = ''__proto__'' \<and> tbl path = None then tbl else tbl(path \<mapsto> v))"

fun is_object :: "'n slot \<Rightarrow> bool" where
  "is_object Undefined = False"
| "is_object v = True"

definition prototype_after_assign :: "'n settings_table \<Rightarrow> string \<Rightarrow> 'n slot \<Rightarrow> 'n slot" where
  "prototype_after_assign tbl path v =
     (if path = ''__proto__'' \<and> tbl path = None \<and> is_object v then v else ObjectPrototype)"

text \<open>
  The constants of settings/settings.ts are parameters.  An object constant is the list
  of its properties in enumeration order (the order of \<open>for ... in\<close>); the tables of
  enumerated keys map a key to its allowable values.
\<close>

record 'n settings_module =
  DEFAULT_SETTINGS :: "(string \<times> 'n json) list"
  DEFAULT_EXTRA_SETTINGS :: "(string \<times> 'n json) list"
  UNION_TYPE_MATH_CONTEXT_SETTING_KEYS :: "string \<rightharpoonup> 'n json list"
  UNION_TYPE_EXTRA_SETTING_KEYS :: "string \<rightharpoonup> 'n json list"

text \<open>
  The data file, as \<open>saveSettings\<close> writes it: \<open>settings\<close> is an object of settings
  objects, listed in enumeration order, each with arbitrary JSON values under arbitrary
  keys; \<open>excludedFiles\<close> is a list of paths; \<open>extraSettings\<close> is absent from a file
  that the older \<open>saveSettings\<close> wrote.  \<open>loadData\<close> gives \<open>null\<close> (here \<open>None\<close>)
  when there is no data file.  Paths and setting keys are ordinary property names (none
  of them is a property of \<open>Object.prototype\<close>).
\<close>

record 'n persisted =
  p_settings :: "(string \<times> (string \<rightharpoonup> 'n json)) list"
  p_extraSettings :: "(string \<rightharpoonup> 'n json) option"
  p_excludedFiles :: "string list"

subsection \<open>MathBooster.loadSettings\<close>

text \<open>
  Lines 323 to 335 (and again 342 to 352): a defined value \<open>val\<close> of an enumerated key
  that is not among the allowable values is replaced by the default \<open>d\<close>; the value is
  kept when its \<open>typeof\<close> is that of the default.
\<close>

definition checked_value :: "(string \<rightharpoonup> 'n json list) \<Rightarrow> string \<Rightarrow> 'n json \<Rightarrow> 'n json \<Rightarrow> 'n json option" where
  "checked_value union_keys key d v =
     (let val = (case union_keys key of
                   Some allowableValues \<Rightarrow> if \<not> js_includes allowableValues v then d else v
                 | None \<Rightarrow> v)
      in if typeof val = typeof d then Some val else None)"

text \<open>
  \<open>this.settings[path][key] = val\<close> throws when \<open>this.settings[path]\<close> is undefined.
  On a settings object it sets the key; on a function or on \<open>Object.prototype\<close> the
  write goes to that object of the host, and the table stays as it is.
\<close>

definition set_setting :: "'n settings_table \<Rightarrow> string \<Rightarrow> string \<Rightarrow> 'n json \<Rightarrow> error + 'n settings_table" where
  "set_setting tbl path key val =
     (case tbl path of
        Some (Obj e) \<Rightarrow> Inr (tbl(path \<mapsto> Obj (e(key \<mapsto> val))))
      | _ \<Rightarrow> (case settings_at tbl path of Undefined \<Rightarrow> Inl TypeError | _ \<Rightarrow> Inr tbl))"

text \<open>
  The loop over the keys of \<open>DEFAULT_SETTINGS\<close> for one path; \<open>src\<close> is
  \<open>settings[path]\<close> of the loaded data.
\<close>

fun load_keys :: "(string \<rightharpoonup> 'n json list) \<Rightarrow> (string \<rightharpoonup> 'n json) \<Rightarrow> string
    \<Rightarrow> (string \<times> 'n json) list \<Rightarrow> 'n settings_table \<Rightarrow> error + 'n settings_table" where
  "load_keys union_keys src path [] tbl = Inr tbl"
| "load_keys union_keys src path ((key, d) # ks) tbl =
     (case src key of
        None \<Rightarrow> load_keys union_keys src path ks tbl
      | Some v \<Rightarrow>
          (case checked_value union_keys key d v of
             None \<Rightarrow> load_keys union_keys src path ks tbl
           | Some val \<Rightarrow>
               (case set_setting tbl path key val of
                  Inl err \<Rightarrow> Inl err
                | Inr tbl' \<Rightarrow> load_keys union_keys src path ks tbl')))"

text \<open>The loop over the paths of the loaded \<open>settings\<close>.\<close>

fun load_paths :: "'n settings_module \<Rightarrow> (string \<times> (string \<rightharpoonup> 'n json)) list
    \<Rightarrow> 'n settings_table \<Rightarrow> error + 'n settings_table" where
  "load_paths M [] tbl = Inr tbl"
| "load_paths M ((path, src) # rest) tbl =
     (let tbl1 = (if path \<noteq> VAULT_ROOT then tbl(path \<mapsto> Obj Map.empty) else tbl)
      in case load_keys (UNION_TYPE_MATH_CONTEXT_SETTING_KEYS M) src path (DEFAULT_SETTINGS M) tbl1 of
           Inl err \<Rightarrow> Inl err
         | Inr tbl2 \<Rightarrow> load_paths M rest tbl2)"

text \<open>
  The loop over the keys of \<open>DEFAULT_EXTRA_SETTINGS\<close>: \<open>extraSettings[key]\<close> throws
  when the loaded data has no \<open>extraSettings\<close>.
\<close>

fun load_extra :: "(string \<rightharpoonup> 'n json list) \<Rightarrow> (string \<rightharpoonup> 'n json) option
    \<Rightarrow> (string \<times> 'n json) list \<Rightarrow> (string \<rightharpoonup> 'n json) \<Rightarrow> error + (string \<rightharpoonup> 'n json)" where
  "load_extra union_keys extra [] es = Inr es"
| "load_extra union_keys extra ((key, d) # ks) es =
     (case extra of
        None \<Rightarrow> Inl TypeError
      | Some src \<Rightarrow>
          (case src key of
             None \<Rightarrow> load_extra union_keys extra ks es
           | Some v \<Rightarrow>
               (case checked_value union_keys key d v of
                  None \<Rightarrow> load_extra union_keys extra ks es
                | Some val \<Rightarrow> load_extra union_keys extra ks (es(key \<mapsto> val)))))"

text \<open>
  \<open>loadSettings\<close>.  \<open>JSON.parse(JSON.stringify(c))\<close> is a copy of the constant \<open>c\<close>.
  A thrown exception rejects the promise of \<open>loadSettings\<close>, and \<open>onload\<close> stops there.
\<close>

definition loadSettings :: "'n settings_module \<Rightarrow> 'n persisted option \<Rightarrow> error + 'n plugin" where
  "loadSettings M loadedData =
     (let settings0 = [VAULT_ROOT \<mapsto> Obj (map_of (DEFAULT_SETTINGS M))];
          extraSettings0 = map_of (DEFAULT_EXTRA_SETTINGS M)
      in case loadedData of
           None \<Rightarrow> Inr \<lparr>settings = settings0, extraSettings = extraSettings0, excludedFiles = []\<rparr>
         | Some data \<Rightarrow>
             (case load_paths M (p_settings data) settings0 of
                Inl err \<Rightarrow> Inl err
              | Inr tbl \<Rightarrow>
                  (case load_extra (UNION_TYPE_EXTRA_SETTING_KEYS M) (p_extraSettings data)
                          (DEFAULT_EXTRA_SETTINGS M) extraSettings0 of
                     Inl err \<Rightarrow> Inl err
                   | Inr es \<Rightarrow>
                       Inr \<lparr>settings = tbl, extraSettings = es,
                            excludedFiles = p_excludedFiles data\<rparr>)))"

subsection \<open>MathPlugin.loadSettings (the older implementation)\<close>

record 'n math_plugin =
  mp_settings :: "'n settings_table"
  mp_excludedFiles :: "string list"

text \<open>\<open>Object.assign(target, source)\<close> copies every property of the source over the target.\<close>

fun object_assign :: "'n settings_table \<Rightarrow> (string \<times> (string \<rightharpoonup> 'n json)) list \<Rightarrow> 'n settings_table" where
  "object_assign tbl [] = tbl"
| "object_assign tbl ((path, src) # rest) = object_assign (tbl(path \<mapsto> Obj src)) rest"

definition MathPlugin_loadSettings :: "'n settings_module \<Rightarrow> 'n persisted option \<Rightarrow> 'n math_plugin" where
  "MathPlugin_loadSettings M loadedData =
     (case loadedData of
        Some data \<Rightarrow>
          \<lparr>mp_settings = object_assign [VAULT_ROOT \<mapsto> Obj (map_of (DEFAULT_SETTINGS M))] (p_settings data),
           mp_excludedFiles = p_excludedFiles data\<rparr>
      | None \<Rightarrow>
          \<lparr>mp_settings = [VAULT_ROOT \<mapsto> Obj (map_of (DEFAULT_SETTINGS M))],
           mp_excludedFiles = []\<rparr>)"

subsection \<open>The rename and delete handlers\<close>

text \<open>\<open>indexOf\<close> gives the first index of the element, or -1; \<open>splice(index, 1)\<close> removes
  the element at the index.\<close>

fun indexOf :: "'a list \<Rightarrow> 'a \<Rightarrow> int" where
  "indexOf [] x = -1"
| "indexOf (y # ys) x = (if y = x then 0 else (let i = indexOf ys x in if i < 0 then -1 else i + 1))"

definition splice1 :: "'a list \<Rightarrow> int \<Rightarrow> 'a list" where
  "splice1 xs index = take (nat index) xs @ drop (nat index + 1) xs"

text \<open>
  \<open>vault.on("rename", (file, oldPath) => ...)\<close>, with \<open>newPath\<close> the value of
  \<open>file.path\<close>.  The assignment stores what \<open>this.settings[oldPath]\<close> reads; then
  \<open>delete\<close> removes the own property of the old path, if there is one.
\<close>

definition rename_handler :: "'n plugin \<Rightarrow> string \<Rightarrow> string \<Rightarrow> 'n plugin" where
  "rename_handler st newPath oldPath =
     (let tbl1 = assign_setting (settings st) newPath (settings_at (settings st) oldPath);
          tbl2 = tbl1(oldPath := None);
          index = indexOf (excludedFiles st) oldPath
      in st\<lparr>settings := tbl2,
             excludedFiles :=
               (if index \<ge> 0 then splice1 (excludedFiles st) index @ [newPath]
                else excludedFiles st)\<rparr>)"

text \<open>
  The prototype of \<open>this.settings\<close> after the rename handler: it is \<open>Object.prototype\<close>
  still, unless the new path is \<open>__proto__\<close> and the assignment went to the setter
  with an object.
\<close>

definition rename_prototype :: "'n plugin \<Rightarrow> string \<Rightarrow> string \<Rightarrow> 'n slot" where
  "rename_prototype st newPath oldPath =
     prototype_after_assign (settings st) newPath (settings_at (settings st) oldPath)"

text \<open>
  \<open>vault.on("delete", (file) => ...)\<close>, with \<open>path\<close> the value of \<open>file.path\<close>.
  For a path that \<open>in\<close> finds on the prototype only, \<open>delete\<close> removes nothing.
\<close>

definition delete_handler :: "'n plugin \<Rightarrow> string \<Rightarrow> 'n plugin" where
  "delete_handler st path =
     (let tbl = (if path \<in> dom (settings st) then (settings st)(path := None) else settings st);
          index = indexOf (excludedFiles st) path
      in st\<lparr>settings := tbl,
             excludedFiles :=
               (if index \<ge> 0 then splice1 (excludedFiles st) index else excludedFiles st)\<rparr>)"

section \<open>Auxiliary definitions\<close>

subsection \<open>What the loops of loadSettings compute\<close>

text \<open>
  The settings object that the loop over the keys builds from the object \<open>e\<close>, and the
  object that the loop starts from: a fresh one, or the root's for the root path.
\<close>

fun entry_keys :: "(string \<rightharpoonup> 'n json list) \<Rightarrow> (string \<rightharpoonup> 'n json)
    \<Rightarrow> (string \<times> 'n json) list \<Rightarrow> (string \<rightharpoonup> 'n json) \<Rightarrow> (string \<rightharpoonup> 'n json)" where
  "entry_keys union_keys src [] e = e"
| "entry_keys union_keys src ((key, d) # ks) e =
     (case src key of
        None \<Rightarrow> entry_keys union_keys src ks e
      | Some v \<Rightarrow>
          (case checked_value union_keys key d v of
             None \<Rightarrow> entry_keys union_keys src ks e
           | Some val \<Rightarrow> entry_keys union_keys src ks (e(key \<mapsto> val))))"

definition entry_base :: "'n settings_table \<Rightarrow> string \<Rightarrow> (string \<rightharpoonup> 'n json)" where
  "entry_base tbl path =
     (if path \<noteq> VAULT_ROOT then Map.empty
      else (case tbl VAULT_ROOT of Some (Obj r) \<Rightarrow> r | _ \<Rightarrow> Map.empty))"

fun paths_table :: "'n settings_module \<Rightarrow> (string \<times> (string \<rightharpoonup> 'n json)) list
    \<Rightarrow> 'n settings_table \<Rightarrow> 'n settings_table" where
  "paths_table M [] tbl = tbl"
| "paths_table M ((path, src) # rest) tbl =
     paths_table M rest
       (tbl(path \<mapsto> Obj (entry_keys (UNION_TYPE_MATH_CONTEXT_SETTING_KEYS M) src
                              (DEFAULT_SETTINGS M) (entry_base tbl path))))"

text \<open>The table that \<open>loadSettings\<close> starts from (line 306).\<close>

definition settings0 :: "'n settings_module \<Rightarrow> 'n settings_table" where
  "settings0 M = [VAULT_ROOT \<mapsto> Obj (map_of (DEFAULT_SETTINGS M))]"

subsection \<open>Invariants of the settings table\<close>

definition root_obj :: "'n settings_table \<Rightarrow> bool" where
  "root_obj tbl = (\<exists>r. tbl VAULT_ROOT = Some (Obj r))"

definition root_total :: "'n settings_module \<Rightarrow> 'n settings_table \<Rightarrow> bool" where
  "root_total M tbl =
     (\<exists>r. tbl VAULT_ROOT = Some (Obj r) \<and> dom r = fst ` set (DEFAULT_SETTINGS M))"

definition typed_table :: "'n settings_module \<Rightarrow> 'n settings_table \<Rightarrow> bool" where
  "typed_table M tbl =
     (\<forall>path s. tbl path = Some s \<longrightarrow>
        (\<exists>e. s = Obj e \<and>
          (\<forall>key v. e key = Some v \<longrightarrow>
             (\<exists>d. (key, d) \<in> set (DEFAULT_SETTINGS M) \<and> typeof v = typeof d))))"

text \<open>Reading \<open>this.settings[path]?.[key]\<close>.\<close>

definition setting_value :: "'n settings_table \<Rightarrow> string \<Rightarrow> string \<Rightarrow> 'n json option" where
  "setting_value tbl path key = (case tbl path of Some (Obj e) \<Rightarrow> e key | _ \<Rightarrow> None)"

subsection \<open>Data on which the two implementations of loadSettings agree\<close>

text \<open>
  A settings object that the validation keeps as it is: every key is a key of
  \<open>DEFAULT_SETTINGS\<close>, and every value passes the check unchanged.
\<close>

definition kept_entry :: "'n settings_module \<Rightarrow> (string \<rightharpoonup> 'n json) \<Rightarrow> bool" where
  "kept_entry M src =
     (\<forall>key v. src key = Some v \<longrightarrow>
        key \<in> fst ` set (DEFAULT_SETTINGS M) \<and>
        (\<forall>d. (key, d) \<in> set (DEFAULT_SETTINGS M) \<longrightarrow>
           checked_value (UNION_TYPE_MATH_CONTEXT_SETTING_KEYS M) key d v = Some v))"

text \<open>
  No data file; or a data file that has \<open>extraSettings\<close>, whose settings objects are all
  kept as they are, and whose settings object for the root, if there is one, sets every key.
\<close>

definition plain_data :: "'n settings_module \<Rightarrow> 'n persisted option \<Rightarrow> bool" where
  "plain_data M loadedData =
     (case loadedData of
        None \<Rightarrow> True
      | Some data \<Rightarrow>
          p_extraSettings data \<noteq> None \<and>
          (\<forall>(path, src) \<in> set (p_settings data).
             kept_entry M src \<and>
             (path = VAULT_ROOT \<longrightarrow> dom src = fst ` set (DEFAULT_SETTINGS M))))"

subsection \<open>Parent chains\<close>

text \<open>
  \<open>reaches_root T a\<close>: the parent chain of \<open>a\<close> comes to a folder with \<open>isRoot()\<close>.
  \<open>on_chain T a c\<close>: \<open>c\<close> is \<open>a\<close> or one of its ancestors, up to the first root.
\<close>

inductive reaches_root :: "'f file_tree \<Rightarrow> 'f \<Rightarrow> bool" for T where
  at_root: "isRoot T a \<Longrightarrow> reaches_root T a"
| below_root: "\<not> isRoot T a \<Longrightarrow> parent T a = Some b \<Longrightarrow> reaches_root T b \<Longrightarrow> reaches_root T a"

inductive on_chain :: "'f file_tree \<Rightarrow> 'f \<Rightarrow> 'f \<Rightarrow> bool" for T where
  here: "on_chain T a a"
| above: "\<not> isRoot T a \<Longrightarrow> parent T a = Some b \<Longrightarrow> on_chain T b c \<Longrightarrow> on_chain T a c"

section \<open>Concrete inputs\<close>

text \<open>A vault with the root folder 0 and the note 1 in it.\<close>

definition tree1 :: "nat file_tree" where
  "tree1 = \<lparr>parent = (\<lambda>f. if f = 0 then None else Some 0),
            is_TFolder = (\<lambda>f. f = 0),
            isRoot = (\<lambda>f. f = 0)\<rparr>"

text \<open>A random source that gives the digits 0, 1, 2, ... in turn, and a cache that
  already has the block id 012345.\<close>

definition random1 :: "nat \<Rightarrow> real" where
  "random1 i = real (i mod 16) / 16"

definition cache1 :: "unit cached_metadata option" where
  "cache1 = Some \<lparr>blocks = Some [''012345'' \<mapsto> ()]\<rparr>"

text \<open>A settings module with two setting keys, one of them enumerated.\<close>

definition M0 :: "int settings_module" where
  "M0 = \<lparr>DEFAULT_SETTINGS = [(''numberStyle'', JStr ''arabic''), (''lineByLine'', JBool False)],
         DEFAULT_EXTRA_SETTINGS = [(''searchMethod'', JStr ''Fuzzy'')],
         UNION_TYPE_MATH_CONTEXT_SETTING_KEYS = [''numberStyle'' \<mapsto> [JStr ''arabic'', JStr ''roman'']],
         UNION_TYPE_EXTRA_SETTING_KEYS = [''searchMethod'' \<mapsto> [JStr ''Fuzzy'', JStr ''Simple'']]\<rparr>"

text \<open>A data file with an invalid enumerated value and an unrecognized key.\<close>

definition data0 :: "int persisted" where
  "data0 = \<lparr>p_settings = [(''a.md'', [''numberStyle'' \<mapsto> JStr ''greek'', ''foo'' \<mapsto> JBool True])],
            p_extraSettings = Some Map.empty,
            p_excludedFiles = [''b.md'']\<rparr>"

definition no_plugin :: "int plugin" where
  "no_plugin = \<lparr>settings = Map.empty, extraSettings = Map.empty, excludedFiles = []\<rparr>"

definition loaded0 :: "int plugin" where
  "loaded0 = (case loadSettings M0 (Some data0) of Inr st \<Rightarrow> st | Inl err \<Rightarrow> no_plugin)"

text \<open>A data file that the validation leaves as it is.\<close>

definition data1 :: "int persisted" where
  "data1 = \<lparr>p_settings = [(''/'', [''numberStyle'' \<mapsto> JStr ''roman'', ''lineByLine'' \<mapsto> JBool True]),
                           (''a.md'', [''numberStyle'' \<mapsto> JStr ''roman''])],
            p_extraSettings = Some [''searchMethod'' \<mapsto> JStr ''Simple''],
            p_excludedFiles = [''b.md'']\<rparr>"

definition loaded1 :: "int plugin" where
  "loaded1 = (case loadSettings M0 (Some data1) of Inr st \<Rightarrow> st | Inl err \<Rightarrow> no_plugin)"

text \<open>The state after \<open>loadSettings\<close> without a data file.\<close>

definition fresh_plugin :: "int plugin" where
  "fresh_plugin = \<lparr>settings = settings0 M0,
                    extraSettings = map_of (DEFAULT_EXTRA_SETTINGS M0),
                    excludedFiles = []\<rparr>"

text \<open>States for the rename and delete handlers.\<close>

definition plugin_a :: "int plugin" where
  "plugin_a = \<lparr>settings = [''a.md'' \<mapsto> Obj [''lineByLine'' \<mapsto> JBool True], ''c.md'' \<mapsto> Obj Map.empty],
                extraSettings = Map.empty,
                excludedFiles = [''a.md'', ''c.md'']\<rparr>"

definition plugin_b :: "int plugin" where
  "plugin_b = \<lparr>settings = Map.empty, extraSettings = Map.empty, excludedFiles = [''b.md'']\<rparr>"

definition plugin_c :: "int plugin" where
  "plugin_c = \<lparr>settings = Map.empty, extraSettings = Map.empty, excludedFiles = [''a.md'', ''a.md'']\<rparr>"

section \<open>isEqualToOrChildOf\<close>

text \<open>The loop returns only from a state in which \<open>ancestor\<close> is not \<open>null\<close>.\<close>

lemma ancestor_loop_Some_nonnull:
  assumes "ancestor_loop T file2 anc = Some b"
  shows "anc \<noteq> None"
proof (rule ancestor_loop.raw_induct[where P = "\<lambda>T file2 anc b. anc \<noteq> None", OF _ assms])
  fix loop and T :: "'a file_tree" and file2 anc b
  assume IH: "\<And>T file2 anc b. loop T file2 anc = Some b \<Longrightarrow> anc \<noteq> None"
    and step: "(if anc = Some file2 then Some True
                else case anc of
                       None \<Rightarrow> loop T file2 None
                     | Some a \<Rightarrow> if isRoot T a then Some False else loop T file2 (parent T a)) = Some b"
  show "anc \<noteq> None"
  proof
    assume "anc = None"
    with step have "loop T file2 None = Some b" by simp
    from IH[OF this] show False by simp
  qed
qed

lemma ancestor_loop_null: "ancestor_loop T file2 None = None"
  using ancestor_loop_Some_nonnull[of T file2 None] by (cases "ancestor_loop T file2 None") auto

text \<open>
  So the function does not return for a first file without parent (the root folder)
  and a second file that is neither the first nor a root folder.
\<close>

lemma isEqualToOrChildOf_no_parent:
  assumes "parent T file1 = None" "file1 \<noteq> file2" "\<not> (is_TFolder T file2 \<and> isRoot T file2)"
  shows "isEqualToOrChildOf T file1 file2 = None"
  using assms by (simp add: isEqualToOrChildOf_def ancestor_loop_null)

text \<open>
  When the parent chain of the first file comes to a root folder, the function returns,
  and what it returns is right.
\<close>

lemma ancestor_loop_reaches_root:
  "reaches_root T a \<Longrightarrow> ancestor_loop T file2 (Some a) = Some (on_chain T a file2)"
proof (induction rule: reaches_root.induct)
  case (at_root a)
  have "on_chain T a file2 \<longleftrightarrow> a = file2"
    using at_root by (auto elim: on_chain.cases intro: on_chain.here)
  then show ?case using at_root by (subst ancestor_loop.simps) auto
next
  case (below_root a b)
  have "on_chain T a file2 \<longleftrightarrow> a = file2 \<or> on_chain T b file2"
    using below_root.hyps(1,2) by (auto elim: on_chain.cases intro: on_chain.intros)
  then show ?case using below_root by (subst ancestor_loop.simps) auto
qed

lemma isEqualToOrChildOf_reaching_root:
  assumes "parent T file1 = Some a" "reaches_root T a"
  shows "isEqualToOrChildOf T file1 file2
         = Some (file1 = file2 \<or> (is_TFolder T file2 \<and> isRoot T file2) \<or> on_chain T a file2)"
  using assms by (auto simp: isEqualToOrChildOf_def ancestor_loop_reaches_root)

lemma isEqualToOrChildOf_note_in_root: "isEqualToOrChildOf tree1 1 0 = Some True"
  by (simp add: isEqualToOrChildOf_def tree1_def)

text \<open>
  C9.  In the vault with the root folder 0 and the note 1, the call with the root folder
  as first file and the note as second file does not return: the parent of the root
  folder is \<open>null\<close>, and the loop never leaves that state.  The claim says that the call
  returns false.
\<close>

theorem isEqualToOrChildOf_root_diverges: "isEqualToOrChildOf tree1 0 1 = None"
  by (simp add: isEqualToOrChildOf_def tree1_def ancestor_loop_null)

section \<open>generateBlockID\<close>

lemma hex_digit_in: "hex_digit d \<in> set ''0123456789abcdef''"
  unfolding hex_digit_def by (rule nth_mem) simp

lemma toString16_digit:
  assumes "0 \<le> (r::real)" "r < 1"
  shows "\<exists>c. toString16 \<lfloor>r * 16\<rfloor> = [c] \<and> c \<in> set ''0123456789abcdef''"
proof -
  define k where "k = \<lfloor>r * 16\<rfloor>"
  have lo: "0 \<le> k" using assms by (simp add: k_def)
  have "r * 16 < 16" using assms by simp
  then have hi: "k < 16" by (simp add: k_def floor_less_iff)
  have "nat k < 16" using lo hi by simp
  then have "toString16 k = [hex_digit (nat k)]"
    using lo by (simp add: toString16_def)
  then show ?thesis using hex_digit_in unfolding k_def by blast
qed

lemma concat_singletons:
  assumes "\<forall>x \<in> set xs. \<exists>c. f x = [c] \<and> c \<in> A"
  shows "length (concat (map f xs)) = length xs \<and> set (concat (map f xs)) \<subseteq> A"
  using assms by (induction xs) auto

lemma random_id_shape:
  assumes "\<forall>i. 0 \<le> random i \<and> random i < 1"
  shows "length (random_id random n len) = len
       \<and> set (random_id random n len) \<subseteq> set ''0123456789abcdef''"
proof -
  have "\<forall>i \<in> set [0..<len]. \<exists>c. toString16 \<lfloor>random (n + i) * 16\<rfloor> = [c]
          \<and> c \<in> set ''0123456789abcdef''"
    using assms toString16_digit by blast
  from concat_singletons[OF this] show ?thesis by (simp add: random_id_def)
qed

text \<open>What the loop returns is the id of one of its passes, and is not a key of the blocks.\<close>

lemma generateBlockID_loop_result:
  assumes "generateBlockID_loop random cache len n = Some blockId"
  shows "(\<exists>m. blockId = random_id random m len) \<and> \<not> in_blocks cache blockId"
proof (rule generateBlockID_loop.raw_induct[where
        P = "\<lambda>random cache len n blockId.
               (\<exists>m. blockId = random_id random m len) \<and> \<not> in_blocks cache blockId",
        OF _ assms])
  fix loop and random :: "nat \<Rightarrow> real" and cache :: "'a cached_metadata option" and len n blockId
  assume IH: "\<And>random cache len n blockId. loop random cache len n = Some blockId \<Longrightarrow>
                (\<exists>m. blockId = random_id random m len) \<and> \<not> in_blocks cache blockId"
    and step: "(let blockId = random_id random n len
                in if in_blocks cache blockId then loop random cache len (n + len)
                   else Some blockId) = Some blockId"
  show "(\<exists>m. blockId = random_id random m len) \<and> \<not> in_blocks cache blockId"
  proof (cases "in_blocks cache (random_id random n len)")
    case True
    with step have "loop random cache len (n + len) = Some blockId" by (simp add: Let_def)
    from IH[OF this] show ?thesis .
  next
    case False
    with step have "blockId = random_id random n len" by (simp add: Let_def)
    with False show ?thesis by blast
  qed
qed

lemma random1_range: "\<forall>i. 0 \<le> random1 i \<and> random1 i < 1"
  by (simp add: random1_def)

lemma random_id_first: "random_id random1 0 6 = ''012345''"
  by (simp add: random_id_def random1_def upt_rec toString16_def hex_digit_def)

lemma random_id_second: "random_id random1 6 6 = ''6789ab''"
  by (simp add: random_id_def random1_def upt_rec toString16_def hex_digit_def)

lemma generateBlockID_cache1: "generateBlockID random1 cache1 None = Some (Inr ''6789ab'')"
  apply (simp add: generateBlockID_def)
  apply (subst generateBlockID_loop.simps)
  apply (simp add: random_id_first in_blocks_def cache1_def)
  apply (subst generateBlockID_loop.simps)
  apply (simp add: random_id_second in_blocks_def cache1_def)
  done

text \<open>
  C10.  With a random source that gives numbers in [0, 1), a string that
  \<open>generateBlockID\<close> returns has as many characters as the length argument says (6 when
  it is omitted), every character is a lowercase hexadecimal digit, and the string is not
  a key of \<open>cache.blocks\<close> when the cache has blocks.
\<close>

theorem generateBlockID_result:
  assumes "\<forall>i. 0 \<le> random i \<and> random i < 1"
    and "generateBlockID random cache length_arg = Some (Inr blockId)"
  shows "int (length blockId) = (case length_arg of None \<Rightarrow> 6 | Some l \<Rightarrow> l)
       \<and> set blockId \<subseteq> set ''0123456789abcdef''
       \<and> (\<forall>c bs. cache = Some c \<and> blocks c = Some bs \<longrightarrow> blockId \<notin> dom bs)"
proof -
  let ?l = "case length_arg of None \<Rightarrow> 6 | Some l \<Rightarrow> l"
  from assms(2) have range: "0 \<le> ?l"
    and loop: "generateBlockID_loop random cache (nat ?l) 0 = Some blockId"
    by (auto simp: generateBlockID_def Let_def split: if_splits)
  from generateBlockID_loop_result[OF loop] obtain m
    where bid: "blockId = random_id random m (nat ?l)" and fresh: "\<not> in_blocks cache blockId"
    by blast
  from random_id_shape[OF assms(1), of m "nat ?l"] bid range
  have "int (length blockId) = ?l" "set blockId \<subseteq> set ''0123456789abcdef''" by auto
  moreover from fresh have "\<forall>c bs. cache = Some c \<and> blocks c = Some bs \<longrightarrow> blockId \<notin> dom bs"
    by (auto simp: in_blocks_def)
  ultimately show ?thesis by blast
qed

theorem generateBlockID_result_witness:
  "(\<forall>i. 0 \<le> random1 i \<and> random1 i < 1)
   \<and> generateBlockID random1 cache1 None = Some (Inr ''6789ab'')
   \<and> int (length ''6789ab'') = 6
   \<and> set ''6789ab'' \<subseteq> set ''0123456789abcdef''
   \<and> ''6789ab'' \<notin> dom [''012345'' \<mapsto> ()]"
proof -
  note r = generateBlockID_result[OF random1_range generateBlockID_cache1]
  have "''6789ab'' \<notin> dom [''012345'' \<mapsto> ()]" by simp
  with r random1_range generateBlockID_cache1 show ?thesis by simp
qed

section \<open>File IO\<close>

lemma js_slice_prefix: "0 \<le> b \<Longrightarrow> js_slice s 0 b = take (nat b) s"
  by (simp add: js_slice_def Let_def min_def)

lemma js_slice_suffix: "0 \<le> b \<Longrightarrow> js_slice s b (int (length s)) = drop (nat b) s"
  by (simp add: js_slice_def Let_def min_def)

lemma js_slice_mid:
  "0 \<le> b \<Longrightarrow> b \<le> e \<Longrightarrow> e \<le> int (length s) \<Longrightarrow>
   js_slice s b e = take (nat e - nat b) (drop (nat b) s)"
  by (simp add: js_slice_def Let_def min_def nat_diff_distrib)

text \<open>
  What writing a range back does: for a range inside the content whose end is not the end
  of the content, the code unit at the end offset is lost.
\<close>

lemma setRange_getRange_drops_unit:
  assumes "0 \<le> offset (pos_start p)" "offset (pos_start p) \<le> offset (pos_end p)"
    and "offset (pos_end p) < int (length data)"
  shows "setRange_fn p (getRange_fn p data) data
         = take (nat (offset (pos_end p))) data @ drop (Suc (nat (offset (pos_end p)))) data"
proof -
  let ?s = "offset (pos_start p)" and ?e = "offset (pos_end p)"
  have e0: "0 \<le> ?e" using assms by linarith
  have mid: "getRange_fn p data = take (nat ?e - nat ?s) (drop (nat ?s) data)"
    unfolding getRange_fn_def using assms by (simp add: js_slice_mid)
  have pre: "js_slice data 0 ?s = take (nat ?s) data"
    using assms by (simp add: js_slice_prefix)
  have suf: "js_slice data (?e + 1) (int (length data)) = drop (Suc (nat ?e)) data"
    using e0 by (simp add: js_slice_suffix nat_add_distrib)
  have le: "nat ?s \<le> nat ?e" using assms by simp
  have "take (nat ?s) data @ take (nat ?e - nat ?s) (drop (nat ?s) data) = take (nat ?e) data"
    using le by (metis le_add_diff_inverse take_add)
  then show ?thesis
    unfolding setRange_fn_def mid pre suf by simp
qed

text \<open>
  C1.  On the note with the content "abc", \<open>getRange\<close> of the range [0, 1) gives "a";
  \<open>setRange\<close> of the same range with that text leaves the note with the content "ac",
  not "abc": writing back what was read is not the identity on the content.
\<close>

theorem setRange_getRange_not_identity:
  "NonActiveNoteIO_getRange [''note.md'' \<mapsto> ''abc''] ''note.md'' (mk_pos 0 1) = Fulfilled ''a'' \<and>
   snd (NonActiveNoteIO_setRange [''note.md'' \<mapsto> ''abc''] ''note.md'' (mk_pos 0 1) ''a'') ''note.md''
     = Some ''ac''"
  by (simp add: NonActiveNoteIO_getRange_def NonActiveNoteIO_setRange_def cachedRead_def
        process_def getRange_fn_def setRange_fn_def mk_pos_def js_slice_def)

lemma NonActiveNoteIO_write_fulfilled: "fst (NonActiveNoteIO_write v file fn) = Fulfilled ()"
  by (simp add: NonActiveNoteIO_write_def split: prod.splits)

lemma NonActiveNoteIO_setRange_fulfilled:
  "fst (NonActiveNoteIO_setRange v file position text) = Fulfilled ()"
  by (simp add: NonActiveNoteIO_setRange_def split: prod.splits)

lemma NonActiveNoteIO_getRange_rejected:
  "v file = None \<Longrightarrow> NonActiveNoteIO_getRange v file position = Rejected IOError"
  by (simp add: NonActiveNoteIO_getRange_def cachedRead_def)

text \<open>
  C6.  On a file that the store cannot write, \<open>Vault.process\<close> is rejected, and the
  promise of \<open>NonActiveNoteIO.setRange\<close> is fulfilled all the same: the method does not
  wait for the write, and the failure does not reach the caller.
\<close>

theorem NonActiveNoteIO_setRange_hides_failure:
  "fst (process Map.empty ''note.md'' (setRange_fn (mk_pos 0 1) ''x'')) = Rejected IOError \<and>
   fst (NonActiveNoteIO_setRange Map.empty ''note.md'' (mk_pos 0 1) ''x'') = Fulfilled ()"
  by (simp add: process_def NonActiveNoteIO_setRange_def)

section \<open>The rename and delete handlers\<close>

lemma indexOf_nonneg_iff: "indexOf xs x \<ge> 0 \<longleftrightarrow> x \<in> set xs"
  by (induction xs) (auto simp: Let_def)

lemma splice1_indexOf: "x \<in> set xs \<Longrightarrow> splice1 xs (indexOf xs x) = remove1 x xs"
proof (induction xs)
  case Nil then show ?case by simp
next
  case (Cons y ys)
  show ?case
  proof (cases "y = x")
    case True then show ?thesis by (simp add: splice1_def)
  next
    case False
    with Cons.prems have in_ys: "x \<in> set ys" by simp
    then have nn: "0 \<le> indexOf ys x" by (simp add: indexOf_nonneg_iff)
    have "splice1 (y # ys) (indexOf ys x + 1) = y # splice1 ys (indexOf ys x)"
      using nn by (simp add: splice1_def nat_add_distrib)
    with False nn Cons.IH[OF in_ys] show ?thesis by (simp add: Let_def)
  qed
qed

lemma count_list_pos_iff: "0 < count_list xs x \<longleftrightarrow> x \<in> set xs"
  by (induction xs) auto

lemma notin_remove1_once: "count_list xs x \<le> 1 \<Longrightarrow> x \<notin> set (remove1 x xs)"
proof (induction xs)
  case Nil then show ?case by simp
next
  case (Cons y ys)
  show ?case
  proof (cases "y = x")
    case True
    with Cons.prems have "count_list ys x = 0" by simp
    then have "x \<notin> set ys" using count_list_pos_iff[of ys x] by simp
    with True show ?thesis by simp
  next
    case False
    with Cons show ?thesis by simp
  qed
qed

lemma in_remove1_other: "p \<noteq> x \<Longrightarrow> p \<in> set (remove1 x xs) \<longleftrightarrow> p \<in> set xs"
  by (induction xs) auto

lemma rename_handler_settings:
  "settings (rename_handler st newPath oldPath)
   = (assign_setting (settings st) newPath (settings_at (settings st) oldPath))(oldPath := None)"
  by (simp add: rename_handler_def Let_def)

lemma rename_handler_excluded:
  "excludedFiles (rename_handler st newPath oldPath)
   = (if oldPath \<in> set (excludedFiles st) then remove1 oldPath (excludedFiles st) @ [newPath]
      else excludedFiles st)"
  by (simp add: rename_handler_def Let_def indexOf_nonneg_iff splice1_indexOf)

lemma delete_handler_settings: "settings (delete_handler st path) = (settings st)(path := None)"
  by (auto simp: delete_handler_def Let_def fun_eq_iff)

lemma delete_handler_excluded:
  "excludedFiles (delete_handler st path) = remove1 path (excludedFiles st)"
  by (simp add: delete_handler_def Let_def indexOf_nonneg_iff splice1_indexOf remove1_idem)


text \<open>
  Why the amended claim has its conditions.  With the same old and new path the entry is
  lost.  With the old path twice in the list of excluded files one occurrence stays.
  With the new path \<open>__proto__\<close> the assignment goes to the setter of
  \<open>Object.prototype\<close>: the settings object of the old path becomes the prototype of
  \<open>this.settings\<close>, and no entry is made.
\<close>

lemma rename_handler_same_path:
  "settings plugin_a ''a.md'' \<noteq> None
   \<and> settings (rename_handler plugin_a ''a.md'' ''a.md'') ''a.md'' = None"
  by (simp add: rename_handler_settings assign_setting_def plugin_a_def)

lemma rename_handler_twice_excluded:
  "''a.md'' \<in> set (excludedFiles (rename_handler plugin_c ''b.md'' ''a.md''))"
  by (simp add: rename_handler_excluded plugin_c_def)

lemma rename_handler_to_proto:
  "settings (rename_handler plugin_a ''__proto__'' ''a.md'') ''__proto__'' = None
   \<and> rename_prototype plugin_a ''__proto__'' ''a.md'' = settings_at (settings plugin_a) ''a.md''
   \<and> settings_at (settings plugin_a) ''a.md'' \<noteq> Undefined"
  by (simp add: rename_handler_settings rename_prototype_def assign_setting_def
        prototype_after_assign_def settings_at_def plugin_a_def)

lemma rename_prototype_kept:
  "newPath \<noteq> ''__proto__'' \<Longrightarrow> rename_prototype st newPath oldPath = ObjectPrototype"
  by (simp add: rename_prototype_def prototype_after_assign_def)

text \<open>
  An old path without an entry of its own reads through the prototype: for the name of a
  property of \<open>Object.prototype\<close> the new path gets that function, for \<open>__proto__\<close> it
  gets \<open>Object.prototype\<close>, and for any other path \<open>undefined\<close>.
\<close>

lemma rename_handler_from_constructor:
  "settings (rename_handler plugin_b ''x.md'' ''constructor'') ''x.md'' = Some (Builtin ''constructor'')
   \<and> settings (rename_handler plugin_b ''x.md'' ''__proto__'') ''x.md'' = Some ObjectPrototype
   \<and> settings (rename_handler plugin_b ''x.md'' ''y.md'') ''x.md'' = Some Undefined"
  by (simp add: rename_handler_settings assign_setting_def settings_at_def
        Object_prototype_names_def plugin_b_def)



text \<open>
  C5, as the claim states it, fails: of a path that is twice in the list of excluded
  files, the delete handler removes the first occurrence only.
\<close>

theorem delete_handler_counterexample:
  "''a.md'' \<in> set (excludedFiles (delete_handler plugin_c ''a.md''))"
  by (simp add: delete_handler_excluded plugin_c_def)

text \<open>
  C5, amended.  Let the path be at most once in the list of excluded files.  After the
  delete handler the path has no entry in the settings table and is not in the list, and
  the entry and the membership of every other path are as before.
\<close>

theorem delete_handler_effect:
  assumes "count_list (excludedFiles st) path \<le> 1"
  shows "settings (delete_handler st path) path = None
       \<and> path \<notin> set (excludedFiles (delete_handler st path))
       \<and> (\<forall>p. p \<noteq> path \<longrightarrow>
              settings (delete_handler st path) p = settings st p
            \<and> (p \<in> set (excludedFiles (delete_handler st path))
                 \<longleftrightarrow> p \<in> set (excludedFiles st)))"
  unfolding delete_handler_excluded delete_handler_settings using assms
  by (auto simp: notin_remove1_once in_remove1_other)

theorem delete_handler_effect_witness:
  "count_list (excludedFiles plugin_a) ''a.md'' \<le> 1
   \<and> settings plugin_a ''a.md'' \<noteq> None
   \<and> ''a.md'' \<in> set (excludedFiles plugin_a)
   \<and> settings (delete_handler plugin_a ''a.md'') ''a.md'' = None
   \<and> ''a.md'' \<notin> set (excludedFiles (delete_handler plugin_a ''a.md''))
   \<and> settings (delete_handler plugin_a ''a.md'') ''c.md'' = settings plugin_a ''c.md''
   \<and> ''c.md'' \<in> set (excludedFiles (delete_handler plugin_a ''a.md''))"
proof -
  have h: "count_list (excludedFiles plugin_a) ''a.md'' \<le> 1" by (simp add: plugin_a_def)
  have pre: "settings plugin_a ''a.md'' \<noteq> None" "''a.md'' \<in> set (excludedFiles plugin_a)"
    "''c.md'' \<in> set (excludedFiles plugin_a)"
    by (simp_all add: plugin_a_def)
  note r = delete_handler_effect[of plugin_a "''a.md''", OF h]
  have c: "settings (delete_handler plugin_a ''a.md'') ''c.md'' = settings plugin_a ''c.md''
           \<and> (''c.md'' \<in> set (excludedFiles (delete_handler plugin_a ''a.md''))
                \<longleftrightarrow> ''c.md'' \<in> set (excludedFiles plugin_a))"
    using r by simp
  from r c h pre show ?thesis by simp
qed

section \<open>loadSettings\<close>

lemma load_keys_entry:
  "tbl path = Some (Obj e) \<Longrightarrow>
   load_keys U src path ks tbl = Inr (tbl(path \<mapsto> Obj (entry_keys U src ks e)))"
proof (induction ks arbitrary: tbl e)
  case Nil
  then show ?case by (simp add: map_upd_triv)
next
  case (Cons kd ks)
  obtain key d where kd: "kd = (key, d)" by (cases kd)
  show ?case
  proof (cases "src key")
    case None
    with Cons kd show ?thesis by simp
  next
    case (Some v)
    show ?thesis
    proof (cases "checked_value U key d v")
      case None
      with Some Cons kd show ?thesis by simp
    next
      case (Some val)
      let ?tbl' = "tbl(path \<mapsto> Obj (e(key \<mapsto> val)))"
      have s: "set_setting tbl path key val = Inr ?tbl'"
        using Cons.prems by (simp add: set_setting_def)
      have at: "?tbl' path = Some (Obj (e(key \<mapsto> val)))" by simp
      have "load_keys U src path ks ?tbl' = Inr (?tbl'(path \<mapsto> Obj (entry_keys U src ks (e(key \<mapsto> val)))))"
        using at by (rule Cons.IH[where tbl = "?tbl'" and e = "e(key \<mapsto> val)"])
      then have ih: "load_keys U src path ks ?tbl'
                     = Inr (tbl(path \<mapsto> Obj (entry_keys U src ks (e(key \<mapsto> val)))))"
        by (simp only: fun_upd_upd)
      have lhs: "load_keys U src path (kd # ks) tbl = load_keys U src path ks ?tbl'"
        using s Some \<open>src key = Some v\<close> kd by simp
      have rhs: "entry_keys U src (kd # ks) e = entry_keys U src ks (e(key \<mapsto> val))"
        using Some \<open>src key = Some v\<close> kd by simp
      show ?thesis unfolding lhs rhs by (rule ih)
    qed
  qed
qed

lemma checked_value_typeof: "checked_value U key d v = Some val \<Longrightarrow> typeof val = typeof d"
  by (auto simp: checked_value_def Let_def split: if_splits)

lemma checked_value_invalid:
  "U key = Some allowableValues \<Longrightarrow> \<not> js_includes allowableValues v \<Longrightarrow>
   checked_value U key d v = Some d"
  by (simp add: checked_value_def)

lemma entry_keys_dom_sub: "dom (entry_keys U src ks e) \<subseteq> dom e \<union> fst ` set ks"
proof (induction ks arbitrary: e)
  case Nil show ?case by simp
next
  case (Cons kd ks)
  obtain key d where kd: "kd = (key, d)" by (cases kd)
  have a: "dom (entry_keys U src ks e) \<subseteq> dom e \<union> fst ` set ks" by (rule Cons.IH)
  have b: "\<And>val. dom (entry_keys U src ks (e(key \<mapsto> val))) \<subseteq> dom (e(key \<mapsto> val)) \<union> fst ` set ks"
    by (rule Cons.IH)
  show ?case using a b unfolding kd
    by (auto split: option.splits)
qed

lemma entry_keys_dom_sup: "dom e \<subseteq> dom (entry_keys U src ks e)"
proof (induction ks arbitrary: e)
  case Nil show ?case by simp
next
  case (Cons kd ks)
  obtain key d where kd: "kd = (key, d)" by (cases kd)
  have a: "dom e \<subseteq> dom (entry_keys U src ks e)" by (rule Cons.IH)
  have b: "\<And>val. dom (e(key \<mapsto> val)) \<subseteq> dom (entry_keys U src ks (e(key \<mapsto> val)))"
    by (rule Cons.IH)
  show ?case using a b unfolding kd
    by (auto split: option.splits)
qed

lemma entry_keys_other: "key \<notin> fst ` set ks \<Longrightarrow> entry_keys U src ks e key = e key"
proof (induction ks arbitrary: e)
  case Nil show ?case by simp
next
  case (Cons kd ks)
  obtain k d where kd: "kd = (k, d)" by (cases kd)
  with Cons.prems have ne: "key \<noteq> k" and notin: "key \<notin> fst ` set ks" by auto
  show ?case unfolding kd using Cons.IH[OF notin] ne
    by (simp split: option.splits)
qed

lemma entry_keys_value:
  "entry_keys U src ks e key = Some val \<Longrightarrow>
   e key = Some val \<or> (\<exists>d v. (key, d) \<in> set ks \<and> src key = Some v \<and> checked_value U key d v = Some val)"
proof (induction ks arbitrary: e)
  case Nil then show ?case by simp
next
  case (Cons kd ks)
  obtain k d where kd: "kd = (k, d)" by (cases kd)
  show ?case
  proof (cases "src k")
    case None
    with Cons.prems kd have "entry_keys U src ks e key = Some val" by simp
    from Cons.IH[OF this] show ?thesis by auto
  next
    case (Some v)
    show ?thesis
    proof (cases "checked_value U k d v")
      case None
      with Some Cons.prems kd have "entry_keys U src ks e key = Some val" by simp
      from Cons.IH[OF this] show ?thesis by auto
    next
      case (Some w)
      with \<open>src k = Some v\<close> Cons.prems kd
      have "entry_keys U src ks (e(k \<mapsto> w)) key = Some val" by simp
      from Cons.IH[OF this] Some \<open>src k = Some v\<close> kd show ?thesis
        by (auto split: if_splits)
    qed
  qed
qed

lemma entry_keys_invalid:
  assumes "distinct (map fst ks)" "(key, d) \<in> set ks" "src key = Some v"
    and "U key = Some allowableValues" "\<not> js_includes allowableValues v"
  shows "entry_keys U src ks e key = Some d"
  using assms
proof (induction ks arbitrary: e)
  case Nil then show ?case by simp
next
  case (Cons kd ks)
  obtain k d' where kd: "kd = (k, d')" by (cases kd)
  show ?case
  proof (cases "k = key")
    case True
    with Cons.prems kd have dd: "d' = d" and notin: "key \<notin> fst ` set ks"
      by (auto simp: image_iff)
    have "checked_value U key d v = Some d"
      using Cons.prems by (simp add: checked_value_invalid)
    then show ?thesis unfolding kd using True dd Cons.prems(3) entry_keys_other[OF notin]
      by simp
  next
    case False
    with Cons.prems kd have "(key, d) \<in> set ks" "distinct (map fst ks)" by auto
    from Cons.IH[OF this(2) this(1) Cons.prems(3,4,5)]
    show ?thesis unfolding kd by (simp split: option.splits)
  qed
qed

lemma load_paths_step:
  assumes "root_obj tbl"
  shows "load_keys U src path ks (if path \<noteq> VAULT_ROOT then tbl(path \<mapsto> Obj Map.empty) else tbl)
         = Inr (tbl(path \<mapsto> Obj (entry_keys U src ks (entry_base tbl path))))"
proof (cases "path = VAULT_ROOT")
  case True
  from assms obtain r where r: "tbl VAULT_ROOT = Some (Obj r)" by (auto simp: root_obj_def)
  have b: "entry_base tbl path = r" using True r by (simp add: entry_base_def)
  have "load_keys U src path ks tbl = Inr (tbl(path \<mapsto> Obj (entry_keys U src ks r)))"
    using r True by (simp add: load_keys_entry)
  then show ?thesis using True b by simp
next
  case False
  let ?t = "tbl(path \<mapsto> Obj Map.empty)"
  have b: "entry_base tbl path = Map.empty" using False by (simp add: entry_base_def)
  have at: "?t path = Some (Obj Map.empty)" by simp
  have "load_keys U src path ks ?t = Inr (?t(path \<mapsto> Obj (entry_keys U src ks Map.empty)))"
    using at by (rule load_keys_entry)
  then have "load_keys U src path ks ?t = Inr (tbl(path \<mapsto> Obj (entry_keys U src ks Map.empty)))"
    by (simp only: fun_upd_upd)
  then show ?thesis using False b by simp
qed

lemma root_obj_upd: "root_obj tbl \<Longrightarrow> root_obj (tbl(path \<mapsto> Obj e))"
  by (simp add: root_obj_def)

lemma load_paths_table: "root_obj tbl \<Longrightarrow> load_paths M S tbl = Inr (paths_table M S tbl)"
proof (induction S arbitrary: tbl)
  case Nil show ?case by simp
next
  case (Cons ps S)
  obtain path src where ps: "ps = (path, src)" by (cases ps)
  let ?U = "UNION_TYPE_MATH_CONTEXT_SETTING_KEYS M" and ?D = "DEFAULT_SETTINGS M"
  let ?t = "tbl(path \<mapsto> Obj (entry_keys ?U src ?D (entry_base tbl path)))"
  have step: "load_keys ?U src path ?D (if path \<noteq> VAULT_ROOT then tbl(path \<mapsto> Obj Map.empty) else tbl)
              = Inr ?t"
    using Cons.prems by (rule load_paths_step)
  have "root_obj ?t" using Cons.prems by (rule root_obj_upd)
  then have "load_paths M S ?t = Inr (paths_table M S ?t)" by (rule Cons.IH)
  then show ?case unfolding ps using step by (simp add: Let_def)
qed

lemma paths_table_frame: "path \<notin> fst ` set S \<Longrightarrow> paths_table M S tbl path = tbl path"
  by (induction S arbitrary: tbl) auto

lemma paths_table_at:
  "distinct (map fst S) \<Longrightarrow> (path, src) \<in> set S \<Longrightarrow>
   \<exists>base. paths_table M S tbl path
     = Some (Obj (entry_keys (UNION_TYPE_MATH_CONTEXT_SETTING_KEYS M) src (DEFAULT_SETTINGS M) base))"
proof (induction S arbitrary: tbl)
  case Nil then show ?case by simp
next
  case (Cons ps S)
  obtain p s where ps: "ps = (p, s)" by (cases ps)
  show ?case
  proof (cases "(path, src) = (p, s)")
    case True
    with Cons.prems ps have "path \<notin> fst ` set S" by auto
    then show ?thesis unfolding ps using True by (auto simp: paths_table_frame)
  next
    case False
    with Cons.prems ps have "distinct (map fst S)" "(path, src) \<in> set S" by auto
    from Cons.IH[OF this] show ?thesis unfolding ps by simp
  qed
qed

lemma entry_keys_typed:
  assumes "\<forall>key v. e key = Some v \<longrightarrow> (\<exists>d. (key, d) \<in> D \<and> typeof v = typeof d)"
    and "set ks \<subseteq> D"
    and "entry_keys U src ks e key = Some val"
  shows "\<exists>d. (key, d) \<in> D \<and> typeof val = typeof d"
proof -
  from entry_keys_value[OF assms(3)]
  consider "e key = Some val"
    | d v where "(key, d) \<in> set ks" "checked_value U key d v = Some val" by auto
  then show ?thesis
  proof cases
    case 1 with assms(1) show ?thesis by blast
  next
    case 2
    then have "typeof val = typeof d" by (simp add: checked_value_typeof)
    with 2 assms(2) show ?thesis by blast
  qed
qed

lemma entry_base_typed:
  assumes "typed_table M tbl"
  shows "\<forall>key v. entry_base tbl path key = Some v \<longrightarrow>
           (\<exists>d. (key, d) \<in> set (DEFAULT_SETTINGS M) \<and> typeof v = typeof d)"
proof (cases "path \<noteq> VAULT_ROOT")
  case True then show ?thesis by (simp add: entry_base_def)
next
  case False
  show ?thesis
  proof (cases "tbl VAULT_ROOT")
    case None with False show ?thesis by (simp add: entry_base_def)
  next
    case (Some s)
    with assms obtain e where "s = Obj e"
      and "\<forall>key v. e key = Some v \<longrightarrow> (\<exists>d. (key, d) \<in> set (DEFAULT_SETTINGS M) \<and> typeof v = typeof d)"
      unfolding typed_table_def by blast
    with Some False show ?thesis by (simp add: entry_base_def)
  qed
qed

lemma typed_table_upd:
  assumes "typed_table M tbl"
    and "\<forall>key v. e key = Some v \<longrightarrow> (\<exists>d. (key, d) \<in> set (DEFAULT_SETTINGS M) \<and> typeof v = typeof d)"
  shows "typed_table M (tbl(path \<mapsto> Obj e))"
  using assms unfolding typed_table_def by auto

lemma paths_table_typed: "typed_table M tbl \<Longrightarrow> typed_table M (paths_table M S tbl)"
proof (induction S arbitrary: tbl)
  case Nil then show ?case by simp
next
  case (Cons ps S)
  obtain path src where ps: "ps = (path, src)" by (cases ps)
  let ?U = "UNION_TYPE_MATH_CONTEXT_SETTING_KEYS M" and ?D = "DEFAULT_SETTINGS M"
  let ?e = "entry_keys ?U src ?D (entry_base tbl path)"
  have "\<forall>key v. ?e key = Some v \<longrightarrow> (\<exists>d. (key, d) \<in> set ?D \<and> typeof v = typeof d)"
    using entry_keys_typed[OF entry_base_typed[OF Cons.prems, of path] subset_refl] by blast
  with Cons.prems have "typed_table M (tbl(path \<mapsto> Obj ?e))" by (rule typed_table_upd)
  then have "typed_table M (paths_table M S (tbl(path \<mapsto> Obj ?e)))" by (rule Cons.IH)
  then show ?case unfolding ps by simp
qed

lemma paths_table_root_total: "root_total M tbl \<Longrightarrow> root_total M (paths_table M S tbl)"
proof (induction S arbitrary: tbl)
  case Nil then show ?case by simp
next
  case (Cons ps S)
  obtain path src where ps: "ps = (path, src)" by (cases ps)
  let ?U = "UNION_TYPE_MATH_CONTEXT_SETTING_KEYS M" and ?D = "DEFAULT_SETTINGS M"
  let ?e = "entry_keys ?U src ?D (entry_base tbl path)"
  from Cons.prems obtain r where r: "tbl VAULT_ROOT = Some (Obj r)" "dom r = fst ` set ?D"
    by (auto simp: root_total_def)
  have "root_total M (tbl(path \<mapsto> Obj ?e))"
  proof (cases "path = VAULT_ROOT")
    case True
    then have b: "entry_base tbl path = r" using r by (simp add: entry_base_def)
    have "dom ?e = fst ` set ?D"
      using entry_keys_dom_sub[of ?U src ?D r] entry_keys_dom_sup[of r ?U src ?D] r(2) b by auto
    with True show ?thesis by (simp add: root_total_def)
  next
    case False
    with r show ?thesis by (simp add: root_total_def)
  qed
  then have "root_total M (paths_table M S (tbl(path \<mapsto> Obj ?e)))" by (rule Cons.IH)
  then show ?case unfolding ps by simp
qed

lemma root_obj_settings0: "root_obj (settings0 M)"
  by (simp add: root_obj_def settings0_def)

lemma root_total_settings0: "root_total M (settings0 M)"
  by (simp add: root_total_def settings0_def dom_map_of_conv_image_fst)

lemma typed_table_settings0: "typed_table M (settings0 M)"
  unfolding typed_table_def settings0_def
  by (auto dest: map_of_SomeD split: if_splits)

lemma load_extra_Some: "load_extra U (Some src) ks es = Inr (entry_keys U src ks es)"
  by (induction ks arbitrary: es) (auto split: option.splits)

lemma loadSettings_None:
  "loadSettings M None = Inr \<lparr>settings = settings0 M,
     extraSettings = map_of (DEFAULT_EXTRA_SETTINGS M), excludedFiles = []\<rparr>"
  by (simp add: loadSettings_def settings0_def)

lemma loadSettings_Some:
  assumes "loadSettings M (Some data) = Inr st"
  shows "settings st = paths_table M (p_settings data) (settings0 M)"
    and "excludedFiles st = p_excludedFiles data"
proof -
  have lp: "load_paths M (p_settings data) (settings0 M)
            = Inr (paths_table M (p_settings data) (settings0 M))"
    using root_obj_settings0 by (rule load_paths_table)
  from assms show "settings st = paths_table M (p_settings data) (settings0 M)"
    unfolding loadSettings_def Let_def settings0_def[symmetric] using lp
    by (auto split: sum.splits)
  from assms show "excludedFiles st = p_excludedFiles data"
    unfolding loadSettings_def Let_def settings0_def[symmetric] using lp
    by (auto split: sum.splits)
qed

lemma loadSettings_completes:
  assumes "p_extraSettings data = Some ex"
  shows "loadSettings M (Some data)
         = Inr \<lparr>settings = paths_table M (p_settings data) (settings0 M),
                extraSettings = entry_keys (UNION_TYPE_EXTRA_SETTING_KEYS M) ex
                   (DEFAULT_EXTRA_SETTINGS M) (map_of (DEFAULT_EXTRA_SETTINGS M)),
                excludedFiles = p_excludedFiles data\<rparr>"
proof -
  have lp: "load_paths M (p_settings data) (settings0 M)
            = Inr (paths_table M (p_settings data) (settings0 M))"
    using root_obj_settings0 by (rule load_paths_table)
  show ?thesis
    unfolding loadSettings_def Let_def settings0_def[symmetric]
    by (simp add: lp assms load_extra_Some)
qed

lemma loadSettings_table:
  assumes "loadSettings M loadedData = Inr st"
  shows "\<exists>S. settings st = paths_table M S (settings0 M)"
proof (cases loadedData)
  case None
  with assms have "settings st = paths_table M [] (settings0 M)"
    by (auto simp: loadSettings_None)
  then show ?thesis ..
next
  case (Some data)
  with assms loadSettings_Some(1) show ?thesis by blast
qed

lemma entry_keys_kept:
  assumes "\<forall>(k, d) \<in> set ks. \<forall>v. src k = Some v \<longrightarrow> checked_value U k d v = Some v"
  shows "entry_keys U src ks e key
         = (if key \<in> fst ` set ks then (case src key of Some v \<Rightarrow> Some v | None \<Rightarrow> e key)
            else e key)"
  using assms
proof (induction ks arbitrary: e)
  case Nil show ?case by simp
next
  case (Cons kd ks)
  obtain k d where kd: "kd = (k, d)" by (cases kd)
  from Cons.prems have rest: "\<forall>(k, d) \<in> set ks. \<forall>v. src k = Some v \<longrightarrow> checked_value U k d v = Some v"
    by simp
  note IH = Cons.IH[OF rest]
  show ?case
  proof (cases "src k")
    case None
    have step: "entry_keys U src (kd # ks) e key = entry_keys U src ks e key"
      unfolding kd using None by simp
    have ih: "entry_keys U src ks e key
              = (if key \<in> fst ` set ks then (case src key of Some v \<Rightarrow> Some v | None \<Rightarrow> e key)
                 else e key)"
      by (rule IH)
    have eq: "entry_keys U src (kd # ks) e key
              = (if key \<in> fst ` set ks then (case src key of Some v \<Rightarrow> Some v | None \<Rightarrow> e key)
                 else e key)"
      by (simp only: step ih)
    show ?thesis unfolding eq using None kd by (auto split: option.splits)
  next
    case (Some v)
    with Cons.prems kd have cv: "checked_value U k d v = Some v" by auto
    have step: "entry_keys U src (kd # ks) e key = entry_keys U src ks (e(k \<mapsto> v)) key"
      unfolding kd using Some cv by simp
    have ih: "entry_keys U src ks (e(k \<mapsto> v)) key
              = (if key \<in> fst ` set ks then (case src key of Some v \<Rightarrow> Some v | None \<Rightarrow> (e(k \<mapsto> v)) key)
                 else (e(k \<mapsto> v)) key)"
      by (rule IH)
    have eq: "entry_keys U src (kd # ks) e key
              = (if key \<in> fst ` set ks then (case src key of Some v \<Rightarrow> Some v | None \<Rightarrow> (e(k \<mapsto> v)) key)
                 else (e(k \<mapsto> v)) key)"
      by (simp only: step ih)
    show ?thesis unfolding eq using Some kd by (auto split: option.splits)
  qed
qed

lemma kept_entry_loaded:
  assumes "kept_entry M src"
    and "root_total M tbl"
    and "path = VAULT_ROOT \<Longrightarrow> dom src = fst ` set (DEFAULT_SETTINGS M)"
  shows "entry_keys (UNION_TYPE_MATH_CONTEXT_SETTING_KEYS M) src (DEFAULT_SETTINGS M)
           (entry_base tbl path) = src"
proof
  fix key
  let ?U = "UNION_TYPE_MATH_CONTEXT_SETTING_KEYS M" and ?D = "DEFAULT_SETTINGS M"
  have pre: "\<forall>(k, d) \<in> set ?D. \<forall>v. src k = Some v \<longrightarrow> checked_value ?U k d v = Some v"
    using assms(1) unfolding kept_entry_def by blast
  note eq = entry_keys_kept[OF pre, of "entry_base tbl path" key]
  from assms(2) obtain r where r: "tbl VAULT_ROOT = Some (Obj r)" "dom r = fst ` set ?D"
    by (auto simp: root_total_def)
  have base: "key \<notin> fst ` set ?D \<Longrightarrow> entry_base tbl path key = None"
    using r by (auto simp: entry_base_def)
  have unrec: "key \<notin> fst ` set ?D \<Longrightarrow> src key = None"
    using assms(1) unfolding kept_entry_def by (cases "src key") auto
  show "entry_keys ?U src ?D (entry_base tbl path) key = src key"
  proof (cases "key \<in> fst ` set ?D")
    case False
    with eq base unrec show ?thesis by simp
  next
    case True
    show ?thesis
    proof (cases "src key")
      case (Some v)
      with eq True show ?thesis by simp
    next
      case None
      have "entry_base tbl path key = None"
      proof (cases "path = VAULT_ROOT")
        case True
        from assms(3)[OF this] \<open>key \<in> fst ` set ?D\<close> None show ?thesis by auto
      next
        case False then show ?thesis by (simp add: entry_base_def)
      qed
      with eq True None show ?thesis by simp
    qed
  qed
qed

lemma paths_table_object_assign:
  assumes "root_total M tbl"
    and "\<forall>(path, src) \<in> set S. kept_entry M src \<and>
           (path = VAULT_ROOT \<longrightarrow> dom src = fst ` set (DEFAULT_SETTINGS M))"
  shows "paths_table M S tbl = object_assign tbl S"
  using assms
proof (induction S arbitrary: tbl)
  case Nil show ?case by simp
next
  case (Cons ps S)
  obtain path src where ps: "ps = (path, src)" by (cases ps)
  from Cons.prems(2) ps have k: "kept_entry M src"
    and c: "path = VAULT_ROOT \<Longrightarrow> dom src = fst ` set (DEFAULT_SETTINGS M)"
    and rest: "\<forall>(path, src) \<in> set S. kept_entry M src \<and>
           (path = VAULT_ROOT \<longrightarrow> dom src = fst ` set (DEFAULT_SETTINGS M))"
    by auto
  have e: "entry_keys (UNION_TYPE_MATH_CONTEXT_SETTING_KEYS M) src (DEFAULT_SETTINGS M)
             (entry_base tbl path) = src"
    using k Cons.prems(1) c by (rule kept_entry_loaded)
  have "root_total M (tbl(path \<mapsto> Obj src))"
    using Cons.prems(1) c by (auto simp: root_total_def)
  then have ih: "paths_table M S (tbl(path \<mapsto> Obj src)) = object_assign (tbl(path \<mapsto> Obj src)) S"
    using rest by (rule Cons.IH)
  show ?case unfolding ps by (simp add: e ih)
qed

subsection \<open>The claims about loadSettings\<close>

lemma loaded0: "loadSettings M0 (Some data0) = Inr loaded0"
proof -
  have "p_extraSettings data0 = Some Map.empty" by (simp add: data0_def)
  from loadSettings_completes[OF this, of M0] show ?thesis
    by (simp add: loaded0_def)
qed

lemma loaded0_settings: "settings loaded0 = paths_table M0 (p_settings data0) (settings0 M0)"
  using loaded0 by (rule loadSettings_Some)

lemma loaded0_foo: "setting_value (settings loaded0) ''a.md'' ''foo'' = None"
  unfolding loaded0_settings
  by (simp add: setting_value_def data0_def M0_def settings0_def entry_base_def VAULT_ROOT_def
        checked_value_def js_includes_def)

lemma fresh_plugin: "loadSettings M0 None = Inr fresh_plugin"
  by (simp add: loadSettings_None fresh_plugin_def)

text \<open>
  C2.  Let the data file hold, under a path, a value for a setting key with a fixed
  enumeration of allowable values, and let the value not be one of them.  After
  \<open>loadSettings\<close> the settings table holds the default of the key under that path; and
  when the default is itself an allowable value, what the table holds is not the invalid
  value.  (The paths of the loaded object, and the keys of \<open>DEFAULT_SETTINGS\<close>, are
  those of an object: no key occurs twice.)
\<close>

theorem loadSettings_invalid_enum:
  assumes "loadSettings M (Some data) = Inr st"
    and "distinct (map fst (p_settings data))"
    and "distinct (map fst (DEFAULT_SETTINGS M))"
    and "(path, src) \<in> set (p_settings data)"
    and "(key, d) \<in> set (DEFAULT_SETTINGS M)"
    and "UNION_TYPE_MATH_CONTEXT_SETTING_KEYS M key = Some allowableValues"
    and "src key = Some v"
    and "\<not> js_includes allowableValues v"
  shows "setting_value (settings st) path key = Some d
       \<and> (js_includes allowableValues d \<longrightarrow> setting_value (settings st) path key \<noteq> Some v)"
proof -
  let ?U = "UNION_TYPE_MATH_CONTEXT_SETTING_KEYS M" and ?D = "DEFAULT_SETTINGS M"
  have tb: "settings st = paths_table M (p_settings data) (settings0 M)"
    using assms(1) by (rule loadSettings_Some)
  obtain base where at: "settings st path = Some (Obj (entry_keys ?U src ?D base))"
    using paths_table_at[OF assms(2) assms(4), of M "settings0 M"] tb by auto
  have "entry_keys ?U src ?D base key = Some d"
    using assms(3) assms(5) assms(7) assms(6) assms(8) by (rule entry_keys_invalid)
  with at have val: "setting_value (settings st) path key = Some d"
    by (simp add: setting_value_def)
  have "js_includes allowableValues d \<Longrightarrow> d \<noteq> v" using assms(8) by auto
  with val show ?thesis by auto
qed

theorem loadSettings_invalid_enum_witness:
  "loadSettings M0 (Some data0) = Inr loaded0
   \<and> \<not> js_includes [JStr ''arabic'', JStr ''roman''] (JStr ''greek'' :: int json)
   \<and> js_includes [JStr ''arabic'', JStr ''roman''] (JStr ''arabic'' :: int json)
   \<and> setting_value (settings loaded0) ''a.md'' ''numberStyle'' = Some (JStr ''arabic'')
   \<and> setting_value (settings loaded0) ''a.md'' ''numberStyle'' \<noteq> Some (JStr ''greek'')"
proof -
  let ?src = "[''numberStyle'' \<mapsto> JStr ''greek'', ''foo'' \<mapsto> JBool True] :: string \<rightharpoonup> int json"
  have h2: "distinct (map fst (p_settings data0))" by (simp add: data0_def)
  have h3: "distinct (map fst (DEFAULT_SETTINGS M0))" by (simp add: M0_def)
  have h4: "(''a.md'', ?src) \<in> set (p_settings data0)" by (simp add: data0_def)
  have h5: "(''numberStyle'', JStr ''arabic'') \<in> set (DEFAULT_SETTINGS M0)" by (simp add: M0_def)
  have h6: "UNION_TYPE_MATH_CONTEXT_SETTING_KEYS M0 ''numberStyle''
            = Some [JStr ''arabic'', JStr ''roman'']" by (simp add: M0_def)
  have h7: "?src ''numberStyle'' = Some (JStr ''greek'')" by simp
  have h8: "\<not> js_includes [JStr ''arabic'', JStr ''roman''] (JStr ''greek'' :: int json)"
    by (simp add: js_includes_def)
  have h9: "js_includes [JStr ''arabic'', JStr ''roman''] (JStr ''arabic'' :: int json)"
    by (simp add: js_includes_def)
  note r = loadSettings_invalid_enum[OF loaded0 h2 h3 h4 h5 h6 h7 h8]
  from r h8 h9 loaded0 show ?thesis by simp
qed

text \<open>
  C7.  After \<open>loadSettings\<close>, every entry of the settings table is a settings object,
  every key in it is a key of \<open>DEFAULT_SETTINGS\<close>, and the value under the key has the
  \<open>typeof\<close> of the default of that key.  So a key of the data file that is not a key of
  \<open>DEFAULT_SETTINGS\<close> is nowhere in the table.
\<close>

theorem loadSettings_recognized_typed:
  assumes "loadSettings M loadedData = Inr st" and "settings st path = Some s"
  shows "\<exists>e. s = Obj e \<and>
           (\<forall>key v. e key = Some v \<longrightarrow>
              (\<exists>d. (key, d) \<in> set (DEFAULT_SETTINGS M) \<and> typeof v = typeof d))"
proof -
  from loadSettings_table[OF assms(1)] obtain S
    where "settings st = paths_table M S (settings0 M)" ..
  then have "typed_table M (settings st)"
    using paths_table_typed[OF typed_table_settings0, of M S] by simp
  with assms(2) show ?thesis unfolding typed_table_def by blast
qed

theorem loadSettings_recognized_typed_witness:
  "loadSettings M0 (Some data0) = Inr loaded0
   \<and> (\<exists>e. settings loaded0 ''a.md'' = Some (Obj e)
          \<and> e ''foo'' = None
          \<and> e ''numberStyle'' = Some (JStr ''arabic'')
          \<and> typeof (JStr ''arabic'' :: int json) = typeof (JStr ''arabic'' :: int json))"
proof -
  have "setting_value (settings loaded0) ''a.md'' ''numberStyle'' = Some (JStr ''arabic'')"
    unfolding loaded0_settings
    by (simp add: setting_value_def data0_def M0_def settings0_def entry_base_def VAULT_ROOT_def
          checked_value_def js_includes_def)
  then obtain s where s: "settings loaded0 ''a.md'' = Some s"
    by (auto simp: setting_value_def split: option.splits)
  from loadSettings_recognized_typed[OF loaded0 s] obtain e where e: "s = Obj e"
    and typed: "\<forall>key v. e key = Some v \<longrightarrow>
                  (\<exists>d. (key, d) \<in> set (DEFAULT_SETTINGS M0) \<and> typeof v = typeof d)" by blast
  have "e ''foo'' = None"
  proof (cases "e ''foo''")
    case (Some v)
    with typed obtain d where "(''foo'', d) \<in> set (DEFAULT_SETTINGS M0)" by blast
    then show ?thesis by (simp add: M0_def)
  qed simp
  moreover have "e ''numberStyle'' = Some (JStr ''arabic'')"
    using \<open>setting_value (settings loaded0) ''a.md'' ''numberStyle'' = Some (JStr ''arabic'')\<close> s e
    by (simp add: setting_value_def)
  ultimately show ?thesis using loaded0 s e by simp
qed

text \<open>
  C3, as the claim states it, fails: a rename event whose file has a path other than the
  root's, and whose old path is the root's, takes the root entry away.
\<close>

theorem root_entry_rename_counterexample:
  "loadSettings M0 None = Inr fresh_plugin
   \<and> ''a.md'' \<noteq> VAULT_ROOT
   \<and> settings fresh_plugin VAULT_ROOT \<noteq> None
   \<and> settings (rename_handler fresh_plugin ''a.md'' VAULT_ROOT) VAULT_ROOT = None"
proof -
  have "''a.md'' \<noteq> VAULT_ROOT" by (simp add: VAULT_ROOT_def)
  moreover have "settings fresh_plugin VAULT_ROOT \<noteq> None"
    by (simp add: fresh_plugin_def settings0_def)
  moreover have "settings (rename_handler fresh_plugin ''a.md'' VAULT_ROOT) VAULT_ROOT = None"
    by (simp add: rename_handler_settings)
  ultimately show ?thesis using fresh_plugin by simp
qed

text \<open>
  C3, amended.  After \<open>loadSettings\<close>, with or without a data file, the settings table
  has for the root path a settings object that sets exactly the keys of
  \<open>DEFAULT_SETTINGS\<close>.  The rename handler leaves the root entry of any state as it is
  when neither the new nor the old path of the event is the root path, and the delete
  handler does when the path of the event is not the root path.
\<close>

theorem root_entry_total_and_kept:
  "(loadSettings M loadedData = Inr st \<longrightarrow>
      (\<exists>r. settings st VAULT_ROOT = Some (Obj r) \<and> dom r = fst ` set (DEFAULT_SETTINGS M)))
   \<and> (newPath \<noteq> VAULT_ROOT \<and> oldPath \<noteq> VAULT_ROOT \<longrightarrow>
        settings (rename_handler s newPath oldPath) VAULT_ROOT = settings s VAULT_ROOT)
   \<and> (path \<noteq> VAULT_ROOT \<longrightarrow>
        settings (delete_handler s path) VAULT_ROOT = settings s VAULT_ROOT)"
proof (intro conjI impI)
  assume "loadSettings M loadedData = Inr st"
  from loadSettings_table[OF this] obtain S
    where "settings st = paths_table M S (settings0 M)" ..
  then have "root_total M (settings st)"
    using paths_table_root_total[OF root_total_settings0, of M S] by simp
  then show "\<exists>r. settings st VAULT_ROOT = Some (Obj r) \<and> dom r = fst ` set (DEFAULT_SETTINGS M)"
    by (simp add: root_total_def)
next
  assume "newPath \<noteq> VAULT_ROOT \<and> oldPath \<noteq> VAULT_ROOT"
  then show "settings (rename_handler s newPath oldPath) VAULT_ROOT = settings s VAULT_ROOT"
    by (auto simp: rename_handler_settings assign_setting_def)
next
  assume "path \<noteq> VAULT_ROOT"
  then show "settings (delete_handler s path) VAULT_ROOT = settings s VAULT_ROOT"
    by (auto simp: delete_handler_settings)
qed

theorem root_entry_total_and_kept_witness:
  "loadSettings M0 (Some data0) = Inr loaded0
   \<and> ''b.md'' \<noteq> VAULT_ROOT \<and> ''a.md'' \<noteq> VAULT_ROOT
   \<and> (\<exists>r. settings loaded0 VAULT_ROOT = Some (Obj r) \<and> dom r = {''numberStyle'', ''lineByLine''})
   \<and> settings (rename_handler loaded0 ''b.md'' ''a.md'') VAULT_ROOT = settings loaded0 VAULT_ROOT
   \<and> settings (delete_handler loaded0 ''a.md'') VAULT_ROOT = settings loaded0 VAULT_ROOT"
proof -
  have ne: "''b.md'' \<noteq> VAULT_ROOT" "''a.md'' \<noteq> VAULT_ROOT" by (simp_all add: VAULT_ROOT_def)
  have keys: "fst ` set (DEFAULT_SETTINGS M0) = {''numberStyle'', ''lineByLine''}"
    by (simp add: M0_def)
  note r = root_entry_total_and_kept[where M = M0 and loadedData = "Some data0" and st = loaded0
      and newPath = "''b.md''" and oldPath = "''a.md''" and s = loaded0 and path = "''a.md''"]
  from r loaded0 ne keys show ?thesis by simp
qed

text \<open>
  C8, as the claim states it, fails: of a data file with an unrecognized key, the older
  implementation keeps the key in the settings table, and \<open>MathBooster.loadSettings\<close>
  does not.
\<close>

theorem loadSettings_differ_counterexample:
  "loadSettings M0 (Some data0) = Inr loaded0
   \<and> setting_value (settings loaded0) ''a.md'' ''foo'' = None
   \<and> setting_value (mp_settings (MathPlugin_loadSettings M0 (Some data0))) ''a.md'' ''foo''
       = Some (JBool True)"
proof -
  have "setting_value (mp_settings (MathPlugin_loadSettings M0 (Some data0))) ''a.md'' ''foo''
        = Some (JBool True)"
    by (simp add: setting_value_def data0_def MathPlugin_loadSettings_def)
  with loaded0 loaded0_foo show ?thesis by simp
qed

text \<open>
  C8, amended.  The two implementations of \<open>loadSettings\<close> end with the same settings
  table and the same list of excluded files when there is no data file, and when the data
  file has \<open>extraSettings\<close>, every one of its settings objects holds only keys of
  \<open>DEFAULT_SETTINGS\<close> with values that the validation keeps unchanged, and its settings
  object for the root path, if there is one, sets every key of \<open>DEFAULT_SETTINGS\<close>.
\<close>

theorem loadSettings_agree:
  assumes "plain_data M loadedData"
  shows "\<exists>st. loadSettings M loadedData = Inr st
           \<and> settings st = mp_settings (MathPlugin_loadSettings M loadedData)
           \<and> excludedFiles st = mp_excludedFiles (MathPlugin_loadSettings M loadedData)"
proof (cases loadedData)
  case None
  then show ?thesis by (simp add: loadSettings_None MathPlugin_loadSettings_def settings0_def)
next
  case (Some data)
  with assms obtain ex where ex: "p_extraSettings data = Some ex"
    and ok: "\<forall>(path, src) \<in> set (p_settings data). kept_entry M src \<and>
           (path = VAULT_ROOT \<longrightarrow> dom src = fst ` set (DEFAULT_SETTINGS M))"
    by (auto simp: plain_data_def)
  have "paths_table M (p_settings data) (settings0 M) = object_assign (settings0 M) (p_settings data)"
    using root_total_settings0 ok by (rule paths_table_object_assign)
  then show ?thesis unfolding Some
    by (simp add: loadSettings_completes[OF ex] MathPlugin_loadSettings_def settings0_def)
qed

theorem loadSettings_agree_witness:
  "plain_data M0 (Some data1)
   \<and> loadSettings M0 (Some data1) = Inr loaded1
   \<and> settings loaded1 = mp_settings (MathPlugin_loadSettings M0 (Some data1))
   \<and> excludedFiles loaded1 = mp_excludedFiles (MathPlugin_loadSettings M0 (Some data1))
   \<and> setting_value (settings loaded1) ''a.md'' ''numberStyle'' = Some (JStr ''roman'')
   \<and> setting_value (settings loaded1) VAULT_ROOT ''lineByLine'' = Some (JBool True)"
proof -
  have p: "plain_data M0 (Some data1)"
    by (auto simp: plain_data_def data1_def kept_entry_def M0_def VAULT_ROOT_def checked_value_def
        js_includes_def split: if_splits)
  from loadSettings_agree[OF p] obtain st where st: "loadSettings M0 (Some data1) = Inr st"
    and eq: "settings st = mp_settings (MathPlugin_loadSettings M0 (Some data1))"
      "excludedFiles st = mp_excludedFiles (MathPlugin_loadSettings M0 (Some data1))" by blast
  have l: "loaded1 = st" by (simp add: loaded1_def st)
  have "setting_value (mp_settings (MathPlugin_loadSettings M0 (Some data1))) ''a.md'' ''numberStyle''
        = Some (JStr ''roman'')"
    "setting_value (mp_settings (MathPlugin_loadSettings M0 (Some data1))) VAULT_ROOT ''lineByLine''
        = Some (JBool True)"
    by (simp_all add: setting_value_def MathPlugin_loadSettings_def data1_def VAULT_ROOT_def)
  with p st eq l show ?thesis by simp
qed

end
